theory Spec2Isabelle
  imports
    Complex_Main
    "HOL-Library.AList"
    "HOL-Library.Char_ord"
    "HOL-Library.List_Lexorder"
    "HOL-Library.Multiset"
begin

section \<open>The webhook route: values, host and store\<close>

text \<open>
  The route handlers of \<^verbatim>\<open>app/page.tsx\<close> (second document, lines 344-405) work on
  the value \<^verbatim>\<open>await request.json()\<close>: a JavaScript value built from JSON text.
  A JSON number is a double: a finite one is kept by its exact rational value, and
  JSON text beyond the double range reads as an infinity (\<open>Infinity True\<close> is the
  positive one).  An object is the list of its own properties.
\<close>

datatype jsnumber = Finite rat | Infinity bool

datatype json =
    JNull
  | JBool bool
  | JNumber jsnumber
  | JString string
  | JArray "json list"
  | JObject "(string \<times> json) list"

text \<open>
  \<^verbatim>\<open>const { titre, date, recommendation, ip_source } = data\<close> reads four properties.
  \<open>None\<close> is \<^verbatim>\<open>undefined\<close>.  None of the four names is a property of a string, a
  number, a boolean, an array or of \<^verbatim>\<open>Object.prototype\<close>, so only an object that owns
  the name yields a value.  (Destructuring \<^verbatim>\<open>null\<close> throws; \<open>POST\<close> has that case.)
\<close>

definition property :: "json \<Rightarrow> string \<Rightarrow> json option" where
  "property data k = (case data of JObject kvs \<Rightarrow> map_of kvs k | _ \<Rightarrow> None)"

text \<open>JavaScript truthiness, as tested by \<^verbatim>\<open>!titre\<close>, \<^verbatim>\<open>date ? _ : _\<close> and \<^verbatim>\<open>if (recommendation)\<close>.\<close>

fun truthy :: "json option \<Rightarrow> bool" where
  "truthy None = False"
| "truthy (Some JNull) = False"
| "truthy (Some (JBool b)) = b"
| "truthy (Some (JNumber n)) = (n \<noteq> Finite 0)"
| "truthy (Some (JString s)) = (s \<noteq> [])"
| "truthy (Some (JArray vs)) = True"
| "truthy (Some (JObject kvs)) = True"

fun typeof :: "json option \<Rightarrow> string" where
  "typeof None = ''undefined''"
| "typeof (Some JNull) = ''object''"
| "typeof (Some (JBool b)) = ''boolean''"
| "typeof (Some (JNumber n)) = ''number''"
| "typeof (Some (JString s)) = ''string''"
| "typeof (Some (JArray vs)) = ''object''"
| "typeof (Some (JObject kvs)) = ''object''"

text \<open>The characters of a value that passed the \<^verbatim>\<open>typeof titre !== 'string'\<close> test.\<close>

fun string_value :: "json option \<Rightarrow> string" where
  "string_value (Some (JString s)) = s"
| "string_value v = []"

text \<open>
  Exceptions that reach the \<^verbatim>\<open>catch\<close> blocks.  The response carries
  \<^verbatim>\<open>error.message\<close>, a text of the runtime or of the driver; the model keeps the
  exception in its place.
\<close>

datatype exn = SyntaxError | TypeError | RangeError | ConnectError | OperationError

text \<open>
  What the handlers take from outside the source file, for one call:
  \<^item> \<open>Date_parse\<close>: the host's \<^verbatim>\<open>Date.parse\<close>, a time value in milliseconds or
    \<open>None\<close> for NaN (outside the ISO format its answer is the engine's own);
  \<^item> \<open>ToPrimitive\<close>: the string an array or object converts to, \<open>None\<close> when the
    conversion throws a TypeError;
  \<^item> \<open>clock\<close>: the system clock, \<open>clock h k\<close> being the reading of the \<open>k\<close>-th
    \<^verbatim>\<open>new Date()\<close> or \<^verbatim>\<open>Date.now()\<close> of the call;
  \<^item> \<open>connect_resolves\<close>, \<open>operation_resolves\<close>: whether \<^verbatim>\<open>client.connect()\<close> and the
    collection operation (\<^verbatim>\<open>insertOne\<close>, \<^verbatim>\<open>toArray\<close>) resolve or reject;
  \<^item> \<open>ObjectId\<close>: the identifier the driver generates for an inserted document.
\<close>

record host =
  Date_parse :: "string \<Rightarrow> int option"
  ToPrimitive :: "json \<Rightarrow> string option"
  clock :: "nat \<Rightarrow> int"
  connect_resolves :: bool
  operation_resolves :: bool
  ObjectId :: string

text \<open>
  A \<^verbatim>\<open>Date\<close> is its time value, \<open>None\<close> for an Invalid Date.  \<open>TimeClip\<close> is the
  standard's: beyond 8.64e15 milliseconds there is no date, and a fraction is cut
  towards zero.
\<close>

type_synonym jsdate = "int option"

fun TimeClip :: "jsnumber \<Rightarrow> jsdate" where
  "TimeClip (Infinity s) = None"
| "TimeClip (Finite q) =
     (if \<bar>q\<bar> > 8640000000000000 then None
      else Some (if q < 0 then \<lceil>q\<rceil> else \<lfloor>q\<rfloor>))"

text \<open>\<^verbatim>\<open>new Date(v)\<close> with one argument.\<close>

fun new_Date :: "host \<Rightarrow> json option \<Rightarrow> exn + jsdate" where
  "new_Date h None = Inr None"
| "new_Date h (Some JNull) = Inr (Some 0)"
| "new_Date h (Some (JBool b)) = Inr (Some (if b then 1 else 0))"
| "new_Date h (Some (JNumber n)) = Inr (TimeClip n)"
| "new_Date h (Some (JString s)) = Inr (Date_parse h s)"
| "new_Date h (Some v) =
     (case ToPrimitive h v of None \<Rightarrow> Inl TypeError | Some s \<Rightarrow> Inr (Date_parse h s))"

text \<open>
  An event, on the server (the object given to \<^verbatim>\<open>insertOne\<close>: dates are \<^verbatim>\<open>Date\<close>
  objects, the optional fields any value) and in the browser (interface
  \<^verbatim>\<open>EventData\<close>: everything is a string).  An optional field that is absent is
  \<open>None\<close>; \<open>oid\<close> is the field \<^verbatim>\<open>_id\<close>.
\<close>

record ('d, 'r, 'v) event =
  oid :: "string option"
  titre :: string
  date :: 'd
  recommendation :: "'v option"
  ip_source :: "'v option"
  receivedAt :: 'r

type_synonym doc = "(jsdate, int, json) event"

type_synonym EventData = "(string, string option, string) event"

text \<open>
  The state the handlers share: the module variable \<open>cachedClient\<close> (a client is
  known by the number of its construction), how many clients \<^verbatim>\<open>new MongoClient(uri)\<close>
  has built, how often \<^verbatim>\<open>connect()\<close> was called and on which clients it resolved,
  and the collection \<^verbatim>\<open>events\<close> in insertion order.
\<close>

record world =
  cachedClient :: "nat option"
  constructed :: nat
  connect_calls :: nat
  connected :: "nat set"
  collection :: "doc list"

definition getClient :: "host \<Rightarrow> world \<Rightarrow> (exn + nat) \<times> world" where
  "getClient h w =
     (case cachedClient w of
        Some client \<Rightarrow> (Inr client, w)
      | None \<Rightarrow>
          (let client = constructed w;
               w1 = w\<lparr>cachedClient := Some client, constructed := Suc (constructed w)\<rparr>;
               w2 = w1\<lparr>connect_calls := Suc (connect_calls w1)\<rparr>
           in if connect_resolves h
              then (Inr client, w2\<lparr>connected := insert client (connected w2)\<rparr>)
              else (Inl ConnectError, w2)))"

text \<open>A run of calls of \<open>getClient\<close>, one host per call, with the results in order.\<close>

fun getClient_calls :: "host list \<Rightarrow> world \<Rightarrow> (exn + nat) list \<times> world" where
  "getClient_calls [] w = ([], w)"
| "getClient_calls (h # hs) w =
     (case getClient h w of
        (r, w1) \<Rightarrow> (case getClient_calls hs w1 of (rs, w2) \<Rightarrow> (r # rs, w2)))"

datatype body = Inserted string | Events "doc list" | BadTitre | Failure exn

datatype response = Resp nat body

text \<open>
  Lines 374-380: the object to insert.  The conditional reads the clock only when
  \<open>date\<close> is falsy, so \<open>receivedAt\<close> is the first reading of the call when a
  date was given and the second otherwise.
\<close>

definition eventToInsert ::
  "host \<Rightarrow> json option \<Rightarrow> json option \<Rightarrow> json option \<Rightarrow> json option \<Rightarrow> exn + doc" where
  "eventToInsert h titre_v date_v recommendation_v ip_source_v =
     (case (if truthy date_v then new_Date h date_v else Inr (Some (clock h 0))) of
        Inl e \<Rightarrow> Inl e
      | Inr d \<Rightarrow>
          Inr \<lparr>oid = None,
               titre = string_value titre_v,
               date = d,
               recommendation = (if truthy recommendation_v then recommendation_v else None),
               ip_source = (if truthy ip_source_v then ip_source_v else None),
               receivedAt = clock h (if truthy date_v then 0 else 1)\<rparr>)"

definition insertOne :: "host \<Rightarrow> doc \<Rightarrow> world \<Rightarrow> (exn + string) \<times> world" where
  "insertOne h ev w =
     (if operation_resolves h
      then (Inr (ObjectId h), w\<lparr>collection := collection w @ [ev\<lparr>oid := Some (ObjectId h)\<rparr>]\<rparr>)
      else (Inl OperationError, w))"

text \<open>
  \<open>POST\<close>: the body is \<open>None\<close> when \<^verbatim>\<open>request.json()\<close> rejects.  Status 400 carries
  the fixed message about \<^verbatim>\<open>titre\<close> (\<open>BadTitre\<close>), status 500 the caught exception.
\<close>

definition POST :: "host \<Rightarrow> json option \<Rightarrow> world \<Rightarrow> response \<times> world" where
  "POST h request w =
     (case request of
        None \<Rightarrow> (Resp 500 (Failure SyntaxError), w)
      | Some data \<Rightarrow>
          if data = JNull then (Resp 500 (Failure TypeError), w)
          else
            (let titre_v = property data ''titre'';
                 date_v = property data ''date'';
                 recommendation_v = property data ''recommendation'';
                 ip_source_v = property data ''ip_source''
             in if \<not> truthy titre_v \<or> typeof titre_v \<noteq> ''string''
                then (Resp 400 BadTitre, w)
                else
                  (case eventToInsert h titre_v date_v recommendation_v ip_source_v of
                     Inl e \<Rightarrow> (Resp 500 (Failure e), w)
                   | Inr ev \<Rightarrow>
                       (case getClient h w of
                          (Inl e, w1) \<Rightarrow> (Resp 500 (Failure e), w1)
                        | (Inr client, w1) \<Rightarrow>
                            (case insertOne h ev w1 of
                               (Inl e, w2) \<Rightarrow> (Resp 500 (Failure e), w2)
                             | (Inr i, w2) \<Rightarrow> (Resp 200 (Inserted i), w2))))))"

text \<open>
  \<^verbatim>\<open>find({}).sort({ receivedAt: -1 }).limit(200).toArray()\<close>: the collection sorted by
  \<open>receivedAt\<close>, newest first, cut after 200 documents.
\<close>

definition find_sort_limit :: "doc list \<Rightarrow> doc list" where
  "find_sort_limit coll = take 200 (sort_key (\<lambda>d. - receivedAt d) coll)"

definition GET :: "host \<Rightarrow> world \<Rightarrow> response \<times> world" where
  "GET h w =
     (case getClient h w of
        (Inl e, w1) \<Rightarrow> (Resp 500 (Failure e), w1)
      | (Inr client, w1) \<Rightarrow>
          if operation_resolves h
          then (Resp 200 (Events (find_sort_limit (collection w1))), w1)
          else (Resp 500 (Failure OperationError), w1))"

section \<open>The dashboard: aggregation over the fetched window\<close>

subsection \<open>Dates as text\<close>

text \<open>
  \<^verbatim>\<open>Date.prototype.toISOString\<close>: the proleptic Gregorian date of a time value in
  UTC, \<^verbatim>\<open>YYYY-MM-DDTHH:mm:ss.sssZ\<close>, the year with a sign and six digits outside
  0..9999; a RangeError on an Invalid Date.  \<open>pad k n\<close> is the last \<open>k\<close> decimal
  digits of \<open>n\<close>.
\<close>

fun pad :: "nat \<Rightarrow> int \<Rightarrow> string" where
  "pad 0 n = []"
| "pad (Suc k) n = pad k (n div 10) @ [''0123456789'' ! nat (n mod 10)]"

definition civil_from_days :: "int \<Rightarrow> int \<times> int \<times> int" where
  "civil_from_days z0 =
     (let z = z0 + 719468;
          era = z div 146097;
          doe = z mod 146097;
          yoe = (doe - doe div 1460 + doe div 36524 - doe div 146096) div 365;
          doy = doe - (365 * yoe + yoe div 4 - yoe div 100);
          mp = (5 * doy + 2) div 153;
          d = doy - (153 * mp + 2) div 5 + 1;
          m = (if mp < 10 then mp + 3 else mp - 9);
          y = yoe + era * 400 + (if m \<le> 2 then 1 else 0)
      in (y, m, d))"

definition year_text :: "int \<Rightarrow> string" where
  "year_text y =
     (if 0 \<le> y \<and> y \<le> 9999 then pad 4 y
      else (if y < 0 then ''-'' else ''+'') @ pad 6 \<bar>y\<bar>)"

definition toISOString :: "jsdate \<Rightarrow> exn + string" where
  "toISOString d =
     (case d of
        None \<Rightarrow> Inl RangeError
      | Some t \<Rightarrow>
          (let (y, m, dd) = civil_from_days (t div 86400000);
               ms = t mod 86400000
           in Inr (year_text y @ ''-'' @ pad 2 m @ ''-'' @ pad 2 dd @ ''T''
                   @ pad 2 (ms div 3600000) @ '':'' @ pad 2 (ms div 60000 mod 60) @ '':''
                   @ pad 2 (ms div 1000 mod 60) @ ''.'' @ pad 3 (ms mod 1000) @ ''Z'')))"

subsection \<open>A plain object used as a dictionary\<close>

text \<open>
  \<^verbatim>\<open>const counts: Record<string, number> = {}\<close> is an ordinary object: a read of a
  name it does not own goes on to \<^verbatim>\<open>Object.prototype\<close>.  The values met are
  \<^item> \<open>Undefined\<close>;
  \<^item> \<open>Num n\<close>, a count;
  \<^item> \<open>Inherited f\<close>, the member \<open>f\<close> of \<^verbatim>\<open>Object.prototype\<close>: a function, or for
    \<^verbatim>\<open>__proto__\<close> the prototype itself, which the accessor returns;
  \<^item> \<open>Text f j\<close>, the string that member converts to (engine-defined text, never
    empty) followed by \<open>j\<close> characters \<^verbatim>\<open>1\<close>.
  The object is the list of its own properties in creation order.
\<close>

datatype jsval = Undefined | Num nat | Text string nat | Inherited string

type_synonym jsobject = "(string \<times> jsval) list"

definition Object_prototype :: "string list" where
  "Object_prototype =
     [''constructor'', ''__defineGetter__'', ''__defineSetter__'', ''hasOwnProperty'',
      ''__lookupGetter__'', ''__lookupSetter__'', ''isPrototypeOf'',
      ''propertyIsEnumerable'', ''toString'', ''valueOf'', ''__proto__'',
      ''toLocaleString'']"

definition get_property :: "jsobject \<Rightarrow> string \<Rightarrow> jsval" where
  "get_property obj k =
     (case map_of obj k of
        Some v \<Rightarrow> v
      | None \<Rightarrow> if k \<in> set Object_prototype then Inherited k else Undefined)"

text \<open>
  \<^verbatim>\<open>(x || 0) + 1\<close>: a count is incremented (0 is falsy, and \<open>0 + 1\<close> is the same
  number); a function, an object or a string is truthy and \<^verbatim>\<open>+ 1\<close> appends to its
  text.
\<close>

fun or_zero_plus_one :: "jsval \<Rightarrow> jsval" where
  "or_zero_plus_one Undefined = Num 1"
| "or_zero_plus_one (Num n) = Num (n + 1)"
| "or_zero_plus_one (Text f j) = Text f (j + 1)"
| "or_zero_plus_one (Inherited f) = Text f 1"

text \<open>
  An assignment replaces an own property in place or creates it last.  The name
  \<^verbatim>\<open>__proto__\<close> reaches the setter of \<^verbatim>\<open>Object.prototype\<close>, which ignores a value
  that is neither an object nor null: a number or a string changes nothing.
\<close>

definition set_property :: "jsobject \<Rightarrow> string \<Rightarrow> jsval \<Rightarrow> jsobject" where
  "set_property obj k v = (if k = ''__proto__'' then obj else AList.update k v obj)"

text \<open>The statement \<^verbatim>\<open>counts[key] = (counts[key] || 0) + 1\<close>.\<close>

definition increment :: "jsobject \<Rightarrow> string \<Rightarrow> jsobject" where
  "increment obj k = set_property obj k (or_zero_plus_one (get_property obj k))"

text \<open>
  \<^verbatim>\<open>Object.keys\<close>: the names that are array indices (canonical decimal numerals
  below \<open>2^32 - 1\<close>) in ascending numeric order, then the other names in creation
  order.
\<close>

definition index_value :: "string \<Rightarrow> int" where
  "index_value s = foldl (\<lambda>a c. 10 * a + (of_char c - 48)) 0 s"

definition is_array_index :: "string \<Rightarrow> bool" where
  "is_array_index s =
     (s \<noteq> [] \<and> list_all (\<lambda>c. c \<in> set ''0123456789'') s
      \<and> (hd s = CHR ''0'' \<longrightarrow> length s = 1) \<and> length s \<le> 10 \<and> index_value s < 4294967295)"

definition Object_keys :: "jsobject \<Rightarrow> string list" where
  "Object_keys obj =
     sort_key index_value (filter is_array_index (map fst obj))
     @ filter (\<lambda>k. \<not> is_array_index k) (map fst obj)"

text \<open>
  \<^verbatim>\<open>Array.prototype.sort\<close> with a comparator: stable, an element moves behind
  another only when the comparator is positive.  A NaN counts as 0; the order the
  engines give when the comparator is inconsistent is their own, the model's is
  that of insertion sort.  \<open>minus\<close> is \<^verbatim>\<open>x - y\<close>, \<open>None\<close> for NaN.
\<close>

fun minus :: "jsval \<Rightarrow> jsval \<Rightarrow> int option" where
  "minus (Num x) (Num y) = Some (int x - int y)"
| "minus x y = None"

fun insert_by :: "('a \<Rightarrow> 'a \<Rightarrow> int option) \<Rightarrow> 'a \<Rightarrow> 'a list \<Rightarrow> 'a list" where
  "insert_by c x [] = [x]"
| "insert_by c x (y # ys) =
     (if (case c x y of None \<Rightarrow> True | Some r \<Rightarrow> r \<le> 0) then x # y # ys
      else y # insert_by c x ys)"

definition sort_by :: "('a \<Rightarrow> 'a \<Rightarrow> int option) \<Rightarrow> 'a list \<Rightarrow> 'a list" where
  "sort_by c xs = foldr (insert_by c) xs []"

subsection \<open>The component's computations\<close>

datatype TimeGrouping = jour | heure

text \<open>
  \<^verbatim>\<open>new Date(ev.date || ev.receivedAt || Date.now())\<close>, for the event at position
  \<open>i\<close> of the window: an empty string is falsy, and \<open>clock h i\<close> is what
  \<^verbatim>\<open>Date.now()\<close> reads while that event is visited.
\<close>

definition effective_date :: "host \<Rightarrow> nat \<Rightarrow> EventData \<Rightarrow> jsdate" where
  "effective_date h i ev =
     (if date ev \<noteq> [] then Date_parse h (date ev)
      else case receivedAt ev of
             Some r \<Rightarrow> if r \<noteq> [] then Date_parse h r else Some (clock h i)
           | None \<Rightarrow> Some (clock h i))"

definition bucket_key :: "TimeGrouping \<Rightarrow> jsdate \<Rightarrow> exn + string" where
  "bucket_key grouping d =
     (case toISOString d of
        Inl e \<Rightarrow> Inl e
      | Inr s \<Rightarrow> Inr (if grouping = jour then take 10 s else take 13 s))"

text \<open>The \<^verbatim>\<open>forEach\<close> of \<open>computeTimeSeries\<close>; an exception ends it.\<close>

fun count_buckets ::
  "host \<Rightarrow> TimeGrouping \<Rightarrow> nat \<Rightarrow> EventData list \<Rightarrow> jsobject \<Rightarrow> exn + jsobject" where
  "count_buckets h grouping i [] counts = Inr counts"
| "count_buckets h grouping i (ev # evs) counts =
     (case bucket_key grouping (effective_date h i ev) of
        Inl e \<Rightarrow> Inl e
      | Inr key \<Rightarrow> count_buckets h grouping (Suc i) evs (increment counts key))"

definition computeTimeSeries ::
  "host \<Rightarrow> EventData list \<Rightarrow> TimeGrouping \<Rightarrow> exn + string list \<times> jsval list" where
  "computeTimeSeries h events grouping =
     (case count_buckets h grouping 0 events [] of
        Inl e \<Rightarrow> Inl e
      | Inr counts \<Rightarrow>
          (let labels = sort (Object_keys counts)
           in Inr (labels, map (get_property counts) labels)))"

definition computeTitleBars :: "EventData list \<Rightarrow> string list \<times> jsval list" where
  "computeTitleBars events =
     (let d = foldl (\<lambda>d ev. increment d (titre ev)) [] events;
          labels = sort_by (\<lambda>a b. minus (get_property d b) (get_property d a)) (Object_keys d)
      in (labels, map (get_property d) labels))"

text \<open>The statistics of lines 105-107 and the displayed \<^verbatim>\<open>events.length\<close>.\<close>

fun truthy_string :: "string option \<Rightarrow> bool" where
  "truthy_string None = False"
| "truthy_string (Some s) = (s \<noteq> [])"

definition totalCount :: "EventData list \<Rightarrow> nat" where
  "totalCount events = length events"

definition uniqueIPs :: "EventData list \<Rightarrow> nat" where
  "uniqueIPs events =
     length (remdups (map ip_source (filter (\<lambda>e. truthy_string (ip_source e)) events)))"

definition eventsWithRecommendation :: "EventData list \<Rightarrow> nat" where
  "eventsWithRecommendation events =
     length (filter (\<lambda>e. truthy_string (recommendation e)) events)"

definition lastEvent :: "EventData list \<Rightarrow> EventData option" where
  "lastEvent events = (case events of [] \<Rightarrow> None | e # es \<Rightarrow> Some e)"

section \<open>A reference host\<close>

text \<open>
  The statements below hold for every host.  Their closed instances need one:
  \<open>reference_host\<close> reads, as \<^verbatim>\<open>Date.parse\<close>, exactly the texts \<open>toISOString\<close>
  writes (every engine reads those the same way) and takes any other text for no
  date; it converts an object to \<^verbatim>\<open>[object Object]\<close> unless the object owns a
  \<^verbatim>\<open>toString\<close>, which JSON cannot make callable, and an array to its joined
  elements (a number among them only when it is an integer below \<open>10^21\<close>).
\<close>

definition days_from_civil :: "int \<Rightarrow> int \<Rightarrow> int \<Rightarrow> int" where
  "days_from_civil y0 m d =
     (let y = (if m \<le> 2 then y0 - 1 else y0);
          era = y div 400;
          yoe = y mod 400;
          doy = (153 * (if m > 2 then m - 3 else m + 9) + 2) div 5 + d - 1;
          doe = yoe * 365 + yoe div 4 - yoe div 100 + doy
      in era * 146097 + doe - 719468)"

definition field_value :: "string \<Rightarrow> nat \<Rightarrow> nat \<Rightarrow> int" where
  "field_value s i n = index_value (take n (drop i s))"

definition iso_parse :: "string \<Rightarrow> int option" where
  "iso_parse s =
     (let t = days_from_civil (field_value s 0 4) (field_value s 5 2) (field_value s 8 2)
                * 86400000
              + field_value s 11 2 * 3600000 + field_value s 14 2 * 60000
              + field_value s 17 2 * 1000 + field_value s 20 3
      in if toISOString (Some t) = Inr s then Some t else None)"

fun join :: "string list \<Rightarrow> string" where
  "join [] = []"
| "join [x] = x"
| "join (x # y # ys) = x @ '','' @ join (y # ys)"

definition number_text :: "jsnumber \<Rightarrow> string option" where
  "number_text n =
     (case n of
        Infinity s \<Rightarrow> Some (if s then ''Infinity'' else ''-Infinity'')
      | Finite q \<Rightarrow>
          if q = of_int \<lfloor>q\<rfloor> \<and> \<bar>q\<bar> < 1000000000000000000000
          then (let ds = dropWhile (\<lambda>c. c = CHR ''0'') (pad 21 \<bar>\<lfloor>q\<rfloor>\<bar>)
                in Some ((if q < 0 then ''-'' else []) @ (if ds = [] then ''0'' else ds)))
          else None)"

fun to_text :: "json \<Rightarrow> string option" where
  "to_text JNull = Some []"
| "to_text (JBool b) = Some (if b then ''true'' else ''false'')"
| "to_text (JNumber n) = number_text n"
| "to_text (JString s) = Some s"
| "to_text (JArray vs) = map_option join (those (map to_text vs))"
| "to_text (JObject kvs) =
     (if map_of kvs ''toString'' = None then Some ''[object Object]'' else None)"

definition reference_host :: host where
  "reference_host =
     \<lparr>Date_parse = iso_parse,
      ToPrimitive = to_text,
      clock = (\<lambda>k. 1704103200000 + int k),
      connect_resolves = True,
      operation_resolves = True,
      ObjectId = ''6592a1a0c0ffee0000000001''\<rparr>"

text \<open>The process at start: \<^verbatim>\<open>let cachedClient = null\<close>, and an empty collection.\<close>

definition start :: world where
  "start =
     \<lparr>cachedClient = None, constructed = 0, connect_calls = 0, connected = {},
      collection = []\<rparr>"

section \<open>Vocabulary of the statements\<close>

text \<open>
  An event of the window is well formed when each time field it carries is a text
  the host reads as a date (an empty text counts as absent, as in the code).
  \<open>tally\<close> is the count a dictionary holds under a name, \<open>numeric\<close> says that a
  dictionary holds counts only.  \<open>sample_window\<close> is a window of three events.
\<close>

definition timestamps :: "host \<Rightarrow> EventData \<Rightarrow> bool" where
  "timestamps h ev =
     ((date ev = [] \<or> Date_parse h (date ev) \<noteq> None)
      \<and> (case receivedAt ev of None \<Rightarrow> True | Some r \<Rightarrow> r = [] \<or> Date_parse h r \<noteq> None))"

definition tally :: "jsobject \<Rightarrow> string \<Rightarrow> nat" where
  "tally obj k = (case map_of obj k of Some (Num n) \<Rightarrow> n | _ \<Rightarrow> 0)"

definition numeric :: "jsobject \<Rightarrow> bool" where
  "numeric obj = list_all (\<lambda>p. case snd p of Num n \<Rightarrow> True | _ \<Rightarrow> False) obj"

definition sample :: "string \<Rightarrow> string \<Rightarrow> EventData" where
  "sample t d =
     \<lparr>oid = None, titre = t, date = d, recommendation = None, ip_source = None,
      receivedAt = None\<rparr>"

definition sample_window :: "EventData list" where
  "sample_window =
     [sample ''Port Scan'' ''2024-01-01T10:00:00.000Z'',
      sample ''Port Scan'' ''2024-01-01T11:00:00.000Z'',
      sample ''Brute Force'' ''2024-01-02T09:00:00.000Z'']"

text \<open>
  \<open>busy\<close> is a running process: its client is cached and connected, and its
  collection holds 250 documents whose receipt times are not in order.
\<close>

definition stored :: "int \<Rightarrow> doc" where
  "stored i =
     \<lparr>oid = Some (pad 24 i), titre = ''Port Scan'', date = Some (1704103200000 + i),
      recommendation = None, ip_source = None,
      receivedAt = 1704103200000 + (i * 97) mod 251\<rparr>"

definition busy :: world where
  "busy =
     \<lparr>cachedClient = Some 0, constructed = 1, connect_calls = 1, connected = {0},
      collection = map stored [0..249]\<rparr>"

section \<open>Properties of the webhook route\<close>

subsection \<open>Auxiliary facts\<close>

lemma getClient_cached: "cachedClient w = Some c \<Longrightarrow> getClient h w = (Inr c, w)"
  by (simp add: getClient_def)

lemma getClient_calls_cached:
  "cachedClient w = Some c \<Longrightarrow> getClient_calls hs w = (replicate (length hs) (Inr c), w)"
  by (induction hs) (simp_all add: getClient_cached)

lemma getClient_collection: "collection (snd (getClient h w)) = collection w"
  by (simp add: getClient_def Let_def split: option.splits)

lemma getClient_reachable:
  "cachedClient w \<noteq> None \<or> connect_resolves h \<Longrightarrow> \<exists>c. fst (getClient h w) = Inr c"
  by (auto simp: getClient_def Let_def split: option.splits)

lemma POST_valid_titre:
  assumes "property data ''titre'' = Some (JString t)" and "t \<noteq> []"
  shows "POST h (Some data) w =
     (case eventToInsert h (Some (JString t)) (property data ''date'')
              (property data ''recommendation'') (property data ''ip_source'') of
        Inl e \<Rightarrow> (Resp 500 (Failure e), w)
      | Inr ev \<Rightarrow>
          (case getClient h w of
             (Inl e, w1) \<Rightarrow> (Resp 500 (Failure e), w1)
           | (Inr client, w1) \<Rightarrow>
               (case insertOne h ev w1 of
                  (Inl e, w2) \<Rightarrow> (Resp 500 (Failure e), w2)
                | (Inr i, w2) \<Rightarrow> (Resp 200 (Inserted i), w2))))"
proof -
  from assms(1) have "data \<noteq> JNull" by (auto simp: property_def)
  with assms show ?thesis by (simp add: POST_def Let_def)
qed

lemma POST_stores:
  assumes "property data ''titre'' = Some (JString t)" and "t \<noteq> []"
    and "eventToInsert h (Some (JString t)) (property data ''date'')
           (property data ''recommendation'') (property data ''ip_source'') = Inr ev"
    and "cachedClient w \<noteq> None \<or> connect_resolves h" and "operation_resolves h"
  shows "fst (POST h (Some data) w) = Resp 200 (Inserted (ObjectId h))"
    and "collection (snd (POST h (Some data) w)) = collection w @ [ev\<lparr>oid := Some (ObjectId h)\<rparr>]"
proof -
  obtain c where c: "fst (getClient h w) = Inr c" using getClient_reachable[OF assms(4)] by blast
  obtain w1 where w1: "getClient h w = (Inr c, w1)" using c by (cases "getClient h w") auto
  have coll: "collection w1 = collection w" using getClient_collection[of h w] w1 by simp
  show "fst (POST h (Some data) w) = Resp 200 (Inserted (ObjectId h))"
    by (simp add: POST_valid_titre[OF assms(1,2)] assms(3,5) w1 insertOne_def)
  show "collection (snd (POST h (Some data) w)) = collection w @ [ev\<lparr>oid := Some (ObjectId h)\<rparr>]"
    by (simp add: POST_valid_titre[OF assms(1,2)] assms(3,5) w1 insertOne_def coll)
qed

lemma POST_success:
  assumes "property data ''titre'' = Some (JString t)" and "t \<noteq> []"
    and "POST h (Some data) w = (Resp 200 b, w')"
  shows "\<exists>ev. eventToInsert h (Some (JString t)) (property data ''date'')
           (property data ''recommendation'') (property data ''ip_source'') = Inr ev
         \<and> collection w' = collection w @ [ev\<lparr>oid := Some (ObjectId h)\<rparr>]"
proof -
  let ?E = "eventToInsert h (Some (JString t)) (property data ''date'')
           (property data ''recommendation'') (property data ''ip_source'')"
  from assms(3) obtain ev where ev: "?E = Inr ev"
    by (cases ?E) (auto simp: POST_valid_titre[OF assms(1,2)])
  obtain r w1 where g: "getClient h w = (r, w1)" by (cases "getClient h w") auto
  have coll: "collection w1 = collection w" using getClient_collection[of h w] g by simp
  from assms(3) ev g obtain c where r: "r = Inr c"
    by (cases r) (auto simp: POST_valid_titre[OF assms(1,2)])
  from assms(3) ev g r have "operation_resolves h"
    by (auto simp: POST_valid_titre[OF assms(1,2)] insertOne_def split: if_splits)
  with assms(3) ev g r coll have "collection w' = collection w @ [ev\<lparr>oid := Some (ObjectId h)\<rparr>]"
    by (auto simp: POST_valid_titre[OF assms(1,2)] insertOne_def)
  with ev show ?thesis by blast
qed

lemma truthy_string:
  "truthy v \<Longrightarrow> typeof v = ''string'' \<Longrightarrow> \<exists>t. v = Some (JString t) \<and> t \<noteq> []"
  by (cases "(v)" rule: typeof.cases) simp_all

lemma POST_200_titre:
  assumes "POST h (Some data) w = (Resp 200 b, w')"
  shows "\<exists>t. property data ''titre'' = Some (JString t) \<and> t \<noteq> []"
proof (rule ccontr)
  assume n: "\<not> ?thesis"
  then have "\<not> truthy (property data ''titre'') \<or> typeof (property data ''titre'') \<noteq> ''string''"
    using truthy_string by blast
  then have "fst (POST h (Some data) w) = Resp 400 BadTitre \<or> fst (POST h (Some data) w) = Resp 500 (Failure TypeError)"
    by (auto simp: POST_def Let_def)
  with assms show False by auto
qed

lemma eventToInsert_fields:
  assumes "eventToInsert h tv dv rv iv = Inr ev"
  shows "recommendation ev = (if truthy rv then rv else None)"
    and "ip_source ev = (if truthy iv then iv else None)"
    and "receivedAt ev = clock h (if truthy dv then 0 else 1)"
    and "titre ev = string_value tv"
  using assms by (auto simp: eventToInsert_def split: sum.splits)

lemma truthy_not_empty: "truthy v \<Longrightarrow> v \<noteq> None \<and> v \<noteq> Some JNull \<and> v \<noteq> Some (JString [])"
  by (cases v rule: truthy.cases) simp_all

lemma find_sort_limit_length: "length (find_sort_limit coll) = min 200 (length coll)"
  by (simp add: find_sort_limit_def min.commute)

lemma sorted_newest_first:
  "sorted_wrt (\<lambda>a b. receivedAt b \<le> receivedAt a) (sort_key (\<lambda>d. - receivedAt d) (coll :: doc list))"
proof -
  have "sorted (map (\<lambda>d. - receivedAt d) (sort_key (\<lambda>d. - receivedAt d) coll))"
    by (rule sorted_sort_key)
  then show ?thesis by (simp add: sorted_map)
qed

lemma find_sort_limit_sorted:
  "sorted_wrt (\<lambda>a b. receivedAt b \<le> receivedAt a) (find_sort_limit coll)"
  unfolding find_sort_limit_def by (rule sorted_wrt_take) (rule sorted_newest_first)

lemma find_sort_limit_newest:
  assumes "d \<in> set coll" and "d \<notin> set (find_sort_limit coll)" and "e \<in> set (find_sort_limit coll)"
  shows "receivedAt d \<le> receivedAt e"
proof -
  let ?s = "sort_key (\<lambda>d. - receivedAt d) coll"
  have split: "?s = take 200 ?s @ drop 200 ?s" by simp
  from assms(1) have "d \<in> set ?s" by simp
  then have "d \<in> set (take 200 ?s) \<or> d \<in> set (drop 200 ?s)"
    by (metis Un_iff append_take_drop_id set_append)
  with assms(2) have d: "d \<in> set (drop 200 ?s)" by (simp add: find_sort_limit_def)
  from assms(3) have e: "e \<in> set (take 200 ?s)" by (simp add: find_sort_limit_def)
  have "sorted_wrt (\<lambda>a b. receivedAt b \<le> receivedAt a) (take 200 ?s @ drop 200 ?s)"
    using sorted_newest_first[of coll] by simp
  then show ?thesis using d e unfolding sorted_wrt_append by blast
qed

lemma busy_unsorted:
  "\<not> sorted_wrt (\<lambda>a b. receivedAt b \<le> receivedAt a) (collection busy)"
  by code_simp

lemma busy_length: "length (collection busy) = 250"
  by code_simp

subsection \<open>Validation of the title\<close>




subsection \<open>The event time\<close>

text \<open>
  Claim C2, as stated, at a concrete input: the payload
  \<^verbatim>\<open>{"titre": "Port Scan", "date": "not a date"}\<close> is accepted with status 200, and
  the stored record's \<open>date\<close> is the Invalid Date that \<^verbatim>\<open>new Date("not a date")\<close> is,
  not the clock reading of the call.
\<close>

theorem POST_unparsable_date_counterexample:
  "Date_parse reference_host ''not a date'' = None
   \<and> fst (POST reference_host
        (Some (JObject [(''titre'', JString ''Port Scan''), (''date'', JString ''not a date'')]))
        start) = Resp 200 (Inserted ''6592a1a0c0ffee0000000001'')
   \<and> map date (collection (snd (POST reference_host
        (Some (JObject [(''titre'', JString ''Port Scan''), (''date'', JString ''not a date'')]))
        start))) = [None]
   \<and> clock reference_host 0 = 1704103200000"
  by code_simp

text \<open>
  Claim C2, amended.  For a payload with a valid title and a reachable store:
  \<^item> when \<open>date\<close> is absent or falsy (null, false, 0, the empty string) the stored
    event time is the clock reading taken at ingestion, and the answer is 200;
  \<^item> when \<open>date\<close> is truthy the stored event time is \<^verbatim>\<open>new Date(date)\<close> as it is,
    and the answer is 200: a non-empty string gives what \<^verbatim>\<open>Date.parse\<close> makes of it,
    a number its clipped value, \<^verbatim>\<open>true\<close> the time value 1, an array or object what
    \<^verbatim>\<open>Date.parse\<close> makes of its text; an Invalid Date is stored as such, without
    substitution and without error;
  \<^item> only when \<^verbatim>\<open>new Date(date)\<close> itself throws (an array or object that does not
    convert to a primitive) \<open>POST\<close> answers 500 and nothing is inserted.
\<close>

theorem POST_event_time:
  assumes "property data ''titre'' = Some (JString t)" and "t \<noteq> []"
    and "cachedClient w \<noteq> None \<or> connect_resolves h" and "operation_resolves h"
  shows "(\<not> truthy (property data ''date'') \<longrightarrow>
            fst (POST h (Some data) w) = Resp 200 (Inserted (ObjectId h))
            \<and> (\<exists>ev. collection (snd (POST h (Some data) w)) = collection w @ [ev]
                  \<and> date ev = Some (clock h 0)))
       \<and> (truthy (property data ''date'') \<longrightarrow>
            (case new_Date h (property data ''date'') of
               Inr d \<Rightarrow>
                 fst (POST h (Some data) w) = Resp 200 (Inserted (ObjectId h))
                 \<and> (\<exists>ev. collection (snd (POST h (Some data) w)) = collection w @ [ev]
                       \<and> date ev = d)
             | Inl e \<Rightarrow> POST h (Some data) w = (Resp 500 (Failure e), w)))
       \<and> (\<forall>s. property data ''date'' = Some (JString s) \<and> s \<noteq> [] \<longrightarrow>
            fst (POST h (Some data) w) = Resp 200 (Inserted (ObjectId h))
            \<and> (\<exists>ev. collection (snd (POST h (Some data) w)) = collection w @ [ev]
                  \<and> date ev = Date_parse h s))"
proof -
  let ?dv = "property data ''date''"
  let ?E = "eventToInsert h (Some (JString t)) ?dv
           (property data ''recommendation'') (property data ''ip_source'')"
  let ?ok = "\<lambda>d. fst (POST h (Some data) w) = Resp 200 (Inserted (ObjectId h))
            \<and> (\<exists>ev. collection (snd (POST h (Some data) w)) = collection w @ [ev] \<and> date ev = d)"
  have stores: "?ok d" if "?E = Inr ev" and "date ev = d" for ev d
    using POST_stores[OF assms(1,2) that(1) assms(3,4)] that(2) by auto
  have 1: "\<not> truthy ?dv \<longrightarrow> ?ok (Some (clock h 0))"
  proof
    assume f: "\<not> truthy ?dv"
    then obtain ev where "?E = Inr ev" "date ev = Some (clock h 0)"
      by (simp add: eventToInsert_def)
    then show "?ok (Some (clock h 0))" by (rule stores)
  qed
  have 2: "truthy ?dv \<longrightarrow>
            (case new_Date h ?dv of Inr d \<Rightarrow> ?ok d
             | Inl e \<Rightarrow> POST h (Some data) w = (Resp 500 (Failure e), w))"
  proof
    assume tr: "truthy ?dv"
    show "case new_Date h ?dv of Inr d \<Rightarrow> ?ok d
             | Inl e \<Rightarrow> POST h (Some data) w = (Resp 500 (Failure e), w)"
    proof (cases "new_Date h ?dv")
      case (Inl e)
      with tr have "?E = Inl e" by (simp add: eventToInsert_def)
      with Inl show ?thesis by (simp add: POST_valid_titre[OF assms(1,2)])
    next
      case (Inr d)
      with tr obtain ev where "?E = Inr ev" "date ev = d" by (simp add: eventToInsert_def)
      then have "?ok d" by (rule stores)
      with Inr show ?thesis by simp
    qed
  qed
  have 3: "\<forall>s. ?dv = Some (JString s) \<and> s \<noteq> [] \<longrightarrow> ?ok (Date_parse h s)"
  proof (intro allI impI)
    fix s assume s: "?dv = Some (JString s) \<and> s \<noteq> []"
    then have "truthy ?dv" "new_Date h ?dv = Inr (Date_parse h s)" by simp_all
    with 2 show "?ok (Date_parse h s)" by simp
  qed
  from 1 2 3 show ?thesis by blast
qed

theorem POST_event_time_witness:
  "(fst (POST reference_host (Some (JObject [(''titre'', JString ''Port Scan'')])) start)
      = Resp 200 (Inserted ''6592a1a0c0ffee0000000001'')
    \<and> (\<exists>ev. collection (snd (POST reference_host
                (Some (JObject [(''titre'', JString ''Port Scan'')])) start)) = [ev]
          \<and> date ev = Some 1704103200000))
   \<and> (fst (POST reference_host (Some (JObject [(''titre'', JString ''Port Scan''),
                (''date'', JString ''not a date'')])) start)
      = Resp 200 (Inserted ''6592a1a0c0ffee0000000001'')
    \<and> (\<exists>ev. collection (snd (POST reference_host (Some (JObject [(''titre'', JString ''Port Scan''),
                (''date'', JString ''not a date'')])) start)) = [ev]
          \<and> date ev = None))
   \<and> (fst (POST reference_host (Some (JObject [(''titre'', JString ''Port Scan''),
                (''date'', JNumber (Finite 86400000))])) start)
      = Resp 200 (Inserted ''6592a1a0c0ffee0000000001'')
    \<and> (\<exists>ev. collection (snd (POST reference_host (Some (JObject [(''titre'', JString ''Port Scan''),
                (''date'', JNumber (Finite 86400000))])) start)) = [ev]
          \<and> date ev = Some 86400000))
   \<and> POST reference_host (Some (JObject [(''titre'', JString ''Port Scan''),
                (''date'', JObject [(''toString'', JNumber (Finite 1))])])) start
      = (Resp 500 (Failure TypeError), start)"
proof -
  have h: "cachedClient start \<noteq> None \<or> connect_resolves reference_host"
    "operation_resolves reference_host"
    by (simp_all add: reference_host_def)
  have p: "Date_parse reference_host ''not a date'' = None" by code_simp
  have i: "ObjectId reference_host = ''6592a1a0c0ffee0000000001''"
    "clock reference_host 0 = 1704103200000" "collection start = []"
    "ToPrimitive reference_host (JObject [(''toString'', JNumber (Finite 1))]) = None"
    by (simp_all add: reference_host_def start_def)
  have a: "property (JObject [(''titre'', JString ''Port Scan'')]) ''titre'' = Some (JString ''Port Scan'')"
    and b: "property (JObject [(''titre'', JString ''Port Scan''), (''date'', JString ''not a date'')]) ''titre''
       = Some (JString ''Port Scan'')"
    and c: "property (JObject [(''titre'', JString ''Port Scan''), (''date'', JNumber (Finite 86400000))]) ''titre''
       = Some (JString ''Port Scan'')"
    and d: "property (JObject [(''titre'', JString ''Port Scan''),
                (''date'', JObject [(''toString'', JNumber (Finite 1))])]) ''titre''
       = Some (JString ''Port Scan'')"
    by (simp_all add: property_def)
  have n: "''Port Scan'' \<noteq> []" by simp
  from POST_event_time [OF a n h] POST_event_time [OF b n h] POST_event_time [OF c n h]
    POST_event_time [OF d n h]
  show ?thesis by (simp add: property_def p i)
qed

subsection \<open>The receipt time\<close>

text \<open>
  Claim C7.  Two payloads that differ at most in a field \<open>receivedAt\<close> get the very
  same answer and leave the very same world, whatever the host and the world: the
  client's \<open>receivedAt\<close> is never read.  And whenever \<open>POST\<close> answers 200, the record
  appended to the collection has as \<open>receivedAt\<close> the clock reading taken by
  \<^verbatim>\<open>new Date()\<close> while the record was built (the first reading of the call when a
  date was given, the second when the event time took the first).
\<close>

theorem receivedAt_server_assigned:
  assumes "\<forall>k. k \<noteq> ''receivedAt'' \<longrightarrow> map_of kvs k = map_of kvs' k"
  shows "POST h (Some (JObject kvs)) w = POST h (Some (JObject kvs')) w
       \<and> (\<forall>b w'. POST h (Some (JObject kvs)) w = (Resp 200 b, w') \<longrightarrow>
            (\<exists>ev. collection w' = collection w @ [ev]
               \<and> receivedAt ev = clock h (if truthy (map_of kvs ''date'') then 0 else 1)))"
proof
  from assms have "map_of kvs ''titre'' = map_of kvs' ''titre''"
    "map_of kvs ''date'' = map_of kvs' ''date''"
    "map_of kvs ''recommendation'' = map_of kvs' ''recommendation''"
    "map_of kvs ''ip_source'' = map_of kvs' ''ip_source''"
    by simp_all
  then show "POST h (Some (JObject kvs)) w = POST h (Some (JObject kvs')) w"
    by (simp add: POST_def property_def)
next
  show "\<forall>b w'. POST h (Some (JObject kvs)) w = (Resp 200 b, w') \<longrightarrow>
            (\<exists>ev. collection w' = collection w @ [ev]
               \<and> receivedAt ev = clock h (if truthy (map_of kvs ''date'') then 0 else 1))"
  proof (intro allI impI)
    fix b w' assume p: "POST h (Some (JObject kvs)) w = (Resp 200 b, w')"
    from POST_200_titre[OF p] obtain t where t: "property (JObject kvs) ''titre'' = Some (JString t)" "t \<noteq> []"
      by blast
    from POST_success[OF t p] obtain ev where
      ev: "eventToInsert h (Some (JString t)) (property (JObject kvs) ''date'')
             (property (JObject kvs) ''recommendation'') (property (JObject kvs) ''ip_source'') = Inr ev"
      and c: "collection w' = collection w @ [ev\<lparr>oid := Some (ObjectId h)\<rparr>]" by blast
    from eventToInsert_fields(3)[OF ev] c
    show "\<exists>ev. collection w' = collection w @ [ev]
               \<and> receivedAt ev = clock h (if truthy (map_of kvs ''date'') then 0 else 1)"
      by (auto simp: property_def)
  qed
qed

theorem receivedAt_server_assigned_witness:
  "POST reference_host (Some (JObject [(''titre'', JString ''Port Scan''),
        (''receivedAt'', JString ''1999-12-31T00:00:00.000Z'')])) start
   = POST reference_host (Some (JObject [(''titre'', JString ''Port Scan'')])) start
   \<and> map receivedAt (collection (snd (POST reference_host (Some (JObject [(''titre'', JString ''Port Scan''),
        (''receivedAt'', JString ''1999-12-31T00:00:00.000Z'')])) start))) = [1704103200001]"
proof -
  let ?kvs = "[(''titre'', JString ''Port Scan''), (''receivedAt'', JString ''1999-12-31T00:00:00.000Z'')]"
  let ?kvs' = "[(''titre'', JString ''Port Scan'')]"
  have "\<forall>k. k \<noteq> ''receivedAt'' \<longrightarrow> map_of ?kvs k = map_of ?kvs' k" by simp
  from receivedAt_server_assigned [OF this, of reference_host start]
  have "POST reference_host (Some (JObject ?kvs)) start = POST reference_host (Some (JObject ?kvs')) start"
    by blast
  moreover have "map receivedAt (collection (snd (POST reference_host (Some (JObject ?kvs)) start)))
     = [1704103200001]" by code_simp
  ultimately show ?thesis by blast
qed

subsection \<open>The optional fields\<close>

text \<open>
  Claim C8, as stated, at a concrete input: in the payload
  \<^verbatim>\<open>{"titre": "Port Scan", "recommendation": false, "ip_source": 0}\<close> both optional
  fields are present and neither is null or an empty string, yet the stored record
  has neither field: the test of the code is truthiness.
\<close>

theorem optional_fields_counterexample:
  "property (JObject [(''titre'', JString ''Port Scan''), (''recommendation'', JBool False),
       (''ip_source'', JNumber (Finite 0))]) ''recommendation'' = Some (JBool False)
   \<and> property (JObject [(''titre'', JString ''Port Scan''), (''recommendation'', JBool False),
       (''ip_source'', JNumber (Finite 0))]) ''ip_source'' = Some (JNumber (Finite 0))
   \<and> fst (POST reference_host (Some (JObject [(''titre'', JString ''Port Scan''),
       (''recommendation'', JBool False), (''ip_source'', JNumber (Finite 0))])) start)
      = Resp 200 (Inserted ''6592a1a0c0ffee0000000001'')
   \<and> map recommendation (collection (snd (POST reference_host (Some (JObject [(''titre'', JString ''Port Scan''),
       (''recommendation'', JBool False), (''ip_source'', JNumber (Finite 0))])) start))) = [None]
   \<and> map ip_source (collection (snd (POST reference_host (Some (JObject [(''titre'', JString ''Port Scan''),
       (''recommendation'', JBool False), (''ip_source'', JNumber (Finite 0))])) start))) = [None]"
  by code_simp

text \<open>
  Claim C8, amended.  Whenever \<open>POST\<close> answers 200, the record appended to the
  collection has \<open>recommendation\<close> (and likewise \<open>ip_source\<close>) exactly when the
  payload's value is truthy, and then that very value.  For a string this is:
  present and non-empty.  An absent field is omitted, and so are null, the empty
  string, false and 0; the record never holds null or the empty string there.
\<close>

theorem optional_fields_stored_when_truthy:
  assumes "POST h (Some data) w = (Resp 200 b, w')"
  shows "\<exists>ev. collection w' = collection w @ [ev]
     \<and> recommendation ev = (if truthy (property data ''recommendation'')
                             then property data ''recommendation'' else None)
     \<and> ip_source ev = (if truthy (property data ''ip_source'')
                        then property data ''ip_source'' else None)
     \<and> (\<forall>s. property data ''recommendation'' = Some (JString s) \<longrightarrow>
            recommendation ev = (if s = [] then None else Some (JString s)))
     \<and> (\<forall>s. property data ''ip_source'' = Some (JString s) \<longrightarrow>
            ip_source ev = (if s = [] then None else Some (JString s)))
     \<and> (property data ''recommendation'' = None \<longrightarrow> recommendation ev = None)
     \<and> (property data ''ip_source'' = None \<longrightarrow> ip_source ev = None)
     \<and> recommendation ev \<notin> {Some JNull, Some (JString [])}
     \<and> ip_source ev \<notin> {Some JNull, Some (JString [])}"
proof -
  from POST_200_titre[OF assms] obtain t where t: "property data ''titre'' = Some (JString t)" "t \<noteq> []"
    by blast
  from POST_success[OF t assms] obtain ev where
    ev: "eventToInsert h (Some (JString t)) (property data ''date'')
           (property data ''recommendation'') (property data ''ip_source'') = Inr ev"
    and c: "collection w' = collection w @ [ev\<lparr>oid := Some (ObjectId h)\<rparr>]" by blast
  let ?ev = "ev\<lparr>oid := Some (ObjectId h)\<rparr>"
  have r: "recommendation ?ev = (if truthy (property data ''recommendation'')
                             then property data ''recommendation'' else None)"
    and i: "ip_source ?ev = (if truthy (property data ''ip_source'')
                        then property data ''ip_source'' else None)"
    using eventToInsert_fields(1,2)[OF ev] by simp_all
  have rs: "\<forall>s. property data ''recommendation'' = Some (JString s) \<longrightarrow>
            recommendation ?ev = (if s = [] then None else Some (JString s))"
    using r by auto
  have istr: "\<forall>s. property data ''ip_source'' = Some (JString s) \<longrightarrow>
            ip_source ?ev = (if s = [] then None else Some (JString s))"
    using i by auto
  have rn: "property data ''recommendation'' = None \<longrightarrow> recommendation ?ev = None"
    using r by auto
  have inone: "property data ''ip_source'' = None \<longrightarrow> ip_source ?ev = None"
    using i by auto
  have re: "recommendation ?ev \<notin> {Some JNull, Some (JString [])}"
    using r truthy_not_empty[of "property data ''recommendation''"] by (auto split: if_splits)
  have ie: "ip_source ?ev \<notin> {Some JNull, Some (JString [])}"
    using i truthy_not_empty[of "property data ''ip_source''"] by (auto split: if_splits)
  show ?thesis
    by (intro exI[of _ ?ev] conjI) (fact c r i rs istr rn inone re ie)+
qed

theorem optional_fields_stored_when_truthy_witness:
  "\<exists>ev. collection (snd (POST reference_host (Some (JObject [(''titre'', JString ''Port Scan''),
             (''recommendation'', JString ''Block the source''), (''ip_source'', JString '''')])) start))
           = collection start @ [ev]
        \<and> recommendation ev = Some (JString ''Block the source'') \<and> ip_source ev = None"
proof -
  let ?d = "JObject [(''titre'', JString ''Port Scan''),
             (''recommendation'', JString ''Block the source''), (''ip_source'', JString '''')]"
  have "fst (POST reference_host (Some ?d) start) = Resp 200 (Inserted ''6592a1a0c0ffee0000000001'')"
    by code_simp
  then have p: "POST reference_host (Some ?d) start
      = (Resp 200 (Inserted ''6592a1a0c0ffee0000000001''), snd (POST reference_host (Some ?d) start))"
    by (metis prod.collapse)
  from optional_fields_stored_when_truthy [OF p] show ?thesis
    by (simp add: property_def, blast)
qed

subsection \<open>The query\<close>

text \<open>
  Claim C6.  With a reachable store, \<open>GET\<close> answers 200 with a window of events
  that holds at most 200 documents of the collection (all of them when there are
  fewer), newest first by \<open>receivedAt\<close>, no omitted document being newer than a
  returned one; on an empty collection the window is the empty list, with status
  200 like any other.
\<close>

theorem GET_recent_window:
  assumes "cachedClient w \<noteq> None \<or> connect_resolves h" and "operation_resolves h"
  shows "\<exists>es. fst (GET h w) = Resp 200 (Events es)
           \<and> length es = min 200 (length (collection w))
           \<and> mset es \<subseteq># mset (collection w)
           \<and> sorted_wrt (\<lambda>a b. receivedAt b \<le> receivedAt a) es
           \<and> (\<forall>d \<in> set (collection w). d \<notin> set es \<longrightarrow> (\<forall>e \<in> set es. receivedAt d \<le> receivedAt e))
           \<and> (collection w = [] \<longrightarrow> es = [])"
proof -
  obtain c where c: "fst (getClient h w) = Inr c" using getClient_reachable[OF assms(1)] by blast
  obtain w1 where w1: "getClient h w = (Inr c, w1)" using c by (cases "getClient h w") auto
  have coll: "collection w1 = collection w" using getClient_collection[of h w] w1 by simp
  let ?es = "find_sort_limit (collection w)"
  have r: "fst (GET h w) = Resp 200 (Events ?es)"
    by (simp add: GET_def w1 assms(2) coll)
  have sub: "mset ?es \<subseteq># mset (collection w)"
  proof -
    let ?s = "sort_key (\<lambda>d. - receivedAt d) (collection w)"
    have "mset (take 200 ?s) \<subseteq># mset (take 200 ?s) + mset (drop 200 ?s)" by simp
    also have "\<dots> = mset ?s" by (metis append_take_drop_id mset_append)
    also have "\<dots> = mset (collection w)" by simp
    finally show ?thesis by (simp add: find_sort_limit_def)
  qed
  have e: "collection w = [] \<longrightarrow> ?es = []" by (simp add: find_sort_limit_def)
  from r sub e find_sort_limit_length[of "collection w"] find_sort_limit_sorted[of "collection w"]
    find_sort_limit_newest[of _ "collection w"]
  show ?thesis by blast
qed

theorem GET_recent_window_witness:
  "length (collection busy) = 250
   \<and> \<not> sorted_wrt (\<lambda>a b. receivedAt b \<le> receivedAt a) (collection busy)
   \<and> (\<exists>es. fst (GET reference_host busy) = Resp 200 (Events es)
          \<and> length es = 200
          \<and> mset es \<subseteq># mset (collection busy)
          \<and> sorted_wrt (\<lambda>a b. receivedAt b \<le> receivedAt a) es
          \<and> (\<forall>d \<in> set (collection busy). d \<notin> set es \<longrightarrow>
                (\<forall>e \<in> set es. receivedAt d \<le> receivedAt e)))"
proof -
  have h: "cachedClient busy \<noteq> None \<or> connect_resolves reference_host"
    "operation_resolves reference_host"
    by (simp_all add: busy_def reference_host_def)
  from GET_recent_window [OF h] obtain es where
    es: "fst (GET reference_host busy) = Resp 200 (Events es)"
      "length es = min 200 (length (collection busy))"
      "mset es \<subseteq># mset (collection busy)"
      "sorted_wrt (\<lambda>a b. receivedAt b \<le> receivedAt a) es"
      "\<forall>d \<in> set (collection busy). d \<notin> set es \<longrightarrow> (\<forall>e \<in> set es. receivedAt d \<le> receivedAt e)"
    by blast
  from es(2) have "length es = 200" by (simp add: busy_length)
  with es busy_length busy_unsorted show ?thesis by blast
qed

subsection \<open>The cached client\<close>

text \<open>
  Claim C9.  On a process that has no client yet, a call of \<open>getClient\<close> whose
  \<^verbatim>\<open>connect()\<close> resolves builds one client, connects it, caches it and returns it;
  every later run of calls, whatever the hosts, returns that same client each time
  and leaves the world as it is: no client is built, no \<^verbatim>\<open>connect()\<close> is called.
\<close>

theorem getClient_idempotent:
  assumes "cachedClient w = None" and "connect_resolves h"
  shows "\<exists>c w1. getClient h w = (Inr c, w1) \<and> c \<in> connected w1
           \<and> cachedClient w1 = Some c
           \<and> constructed w1 = Suc (constructed w) \<and> connect_calls w1 = Suc (connect_calls w)
           \<and> (\<forall>hs. getClient_calls hs w1 = (replicate (length hs) (Inr c), w1))"
proof -
  let ?w1 = "snd (getClient h w)"
  let ?c = "constructed w"
  from assms have g: "getClient h w = (Inr ?c, ?w1)" by (simp add: getClient_def Let_def)
  from assms have f: "?c \<in> connected ?w1" "cachedClient ?w1 = Some ?c"
    "constructed ?w1 = Suc (constructed w)" "connect_calls ?w1 = Suc (connect_calls w)"
    by (simp_all add: getClient_def Let_def)
  from f(2) have "\<forall>hs. getClient_calls hs ?w1 = (replicate (length hs) (Inr ?c), ?w1)"
    by (simp add: getClient_calls_cached)
  with g f show ?thesis by blast
qed

theorem getClient_idempotent_witness:
  "getClient reference_host start = (Inr 0, snd (getClient reference_host start))
   \<and> cachedClient (snd (getClient reference_host start)) = Some 0
   \<and> getClient_calls [reference_host, reference_host\<lparr>connect_resolves := False\<rparr>]
        (snd (getClient reference_host start))
      = ([Inr 0, Inr 0], snd (getClient reference_host start))"
proof -
  have "cachedClient start = None" "connect_resolves reference_host"
    by (simp_all add: start_def reference_host_def)
  from getClient_idempotent [OF this] obtain c w1 where
    a: "getClient reference_host start = (Inr c, w1)" "cachedClient w1 = Some c" and
    b: "\<forall>hs. getClient_calls hs w1 = (replicate (length hs) (Inr c), w1)" by blast
  have c0: "c = 0" using a(1) by (simp add: getClient_def Let_def start_def reference_host_def)
  from b have "getClient_calls [reference_host, reference_host\<lparr>connect_resolves := False\<rparr>] w1
     = (replicate (length [reference_host, reference_host\<lparr>connect_resolves := False\<rparr>]) (Inr c), w1)"
    by blast
  with a c0 show ?thesis by simp
qed

text \<open>
  Claim C10.  On a process that has no client yet, a call of \<open>getClient\<close> whose
  \<^verbatim>\<open>connect()\<close> rejects fails, but leaves the new client in the cache; the client
  is not among the connected ones.  Every later run of calls returns that client
  each time and leaves the world as it is, even on hosts where \<^verbatim>\<open>connect()\<close>
  would resolve: \<open>getClient\<close> never calls it again.
\<close>

theorem getClient_failed_connect_cached:
  assumes "cachedClient w = None" and "\<not> connect_resolves h"
  shows "\<exists>w1. getClient h w = (Inl ConnectError, w1)
           \<and> cachedClient w1 = Some (constructed w)
           \<and> constructed w1 = Suc (constructed w)
           \<and> connect_calls w1 = Suc (connect_calls w)
           \<and> connected w1 = connected w
           \<and> (\<forall>hs. getClient_calls hs w1 = (replicate (length hs) (Inr (constructed w)), w1))"
proof -
  let ?w1 = "snd (getClient h w)"
  from assms have g: "getClient h w = (Inl ConnectError, ?w1)" by (simp add: getClient_def Let_def)
  from assms have f: "cachedClient ?w1 = Some (constructed w)"
    "constructed ?w1 = Suc (constructed w)" "connect_calls ?w1 = Suc (connect_calls w)"
    "connected ?w1 = connected w"
    by (simp_all add: getClient_def Let_def)
  from f(1) have "\<forall>hs. getClient_calls hs ?w1 = (replicate (length hs) (Inr (constructed w)), ?w1)"
    by (simp add: getClient_calls_cached)
  with g f show ?thesis by blast
qed

theorem getClient_failed_connect_cached_witness:
  "fst (getClient (reference_host\<lparr>connect_resolves := False\<rparr>) start) = Inl ConnectError
   \<and> cachedClient (snd (getClient (reference_host\<lparr>connect_resolves := False\<rparr>) start)) = Some 0
   \<and> connected (snd (getClient (reference_host\<lparr>connect_resolves := False\<rparr>) start)) = {}
   \<and> getClient_calls [reference_host, reference_host]
        (snd (getClient (reference_host\<lparr>connect_resolves := False\<rparr>) start))
      = ([Inr 0, Inr 0], snd (getClient (reference_host\<lparr>connect_resolves := False\<rparr>) start))"
proof -
  let ?h = "reference_host\<lparr>connect_resolves := False\<rparr>"
  have "cachedClient start = None" "\<not> connect_resolves ?h"
    by (simp_all add: start_def)
  from getClient_failed_connect_cached [OF this] obtain w1 where
    a: "getClient ?h start = (Inl ConnectError, w1)" "cachedClient w1 = Some (constructed start)"
       "connected w1 = connected start" and
    b: "\<forall>hs. getClient_calls hs w1 = (replicate (length hs) (Inr (constructed start)), w1)" by blast
  from b have "getClient_calls [reference_host, reference_host] w1
     = (replicate (length [reference_host, reference_host]) (Inr (constructed start)), w1)"
    by blast
  with a show ?thesis by (simp add: start_def)
qed

section \<open>Properties of the aggregation\<close>

subsection \<open>Counting in a plain object\<close>

lemma Object_prototype_proto: "''__proto__'' \<in> set Object_prototype"
  by (simp add: Object_prototype_def)

lemma numeric_lookup: "numeric obj \<Longrightarrow> map_of obj k = Some v \<Longrightarrow> \<exists>n. v = Num n"
  by (induction obj) (auto simp: numeric_def split: if_splits jsval.splits)

lemma increment_plain:
  assumes "k \<notin> set Object_prototype" and "numeric obj"
  shows "increment obj k = AList.update k (Num (Suc (tally obj k))) obj"
proof -
  from assms(1) have k: "k \<noteq> ''__proto__''" using Object_prototype_proto by auto
  show ?thesis
  proof (cases "map_of obj k")
    case None
    with assms(1) k show ?thesis
      by (simp add: increment_def get_property_def set_property_def tally_def)
  next
    case (Some v)
    with numeric_lookup[OF assms(2)] obtain n where "v = Num n" by blast
    with Some k show ?thesis
      by (simp add: increment_def get_property_def set_property_def tally_def)
  qed
qed

lemma numeric_update: "numeric obj \<Longrightarrow> numeric (AList.update k (Num m) obj)"
  by (induction obj) (auto simp: numeric_def)

lemma tally_update:
  "tally (AList.update k (Num m) obj) k' = (if k' = k then m else tally obj k')"
  by (simp add: tally_def update_conv')

lemma fold_increment:
  assumes "\<forall>k \<in> set ks. k \<notin> set Object_prototype" and "numeric obj" and "distinct (map fst obj)"
  shows "numeric (foldl increment obj ks)
       \<and> distinct (map fst (foldl increment obj ks))
       \<and> set (map fst (foldl increment obj ks)) = set (map fst obj) \<union> set ks
       \<and> (\<forall>k. tally (foldl increment obj ks) k = tally obj k + count_list ks k)"
  using assms
proof (induction ks arbitrary: obj)
  case Nil
  then show ?case by simp
next
  case (Cons a ks)
  let ?o = "AList.update a (Num (Suc (tally obj a))) obj"
  from Cons.prems have a: "a \<notin> set Object_prototype" by simp
  have i: "increment obj a = ?o" by (rule increment_plain[OF a Cons.prems(2)])
  have n: "numeric ?o" by (rule numeric_update[OF Cons.prems(2)])
  have d: "distinct (map fst ?o)" by (rule distinct_update[OF Cons.prems(3)])
  from Cons.prems(1) have r: "\<forall>k \<in> set ks. k \<notin> set Object_prototype" by simp
  note IH = Cons.IH[OF r n d]
  have s: "set (map fst ?o) = insert a (set (map fst obj))"
    using dom_update[of a _ obj] by auto
  from IH s show ?case by (auto simp: i tally_update)
qed

lemma digit_char: "''0123456789'' ! nat (n mod 10) \<in> set ''0123456789''"
proof -
  have "nat (n mod 10) < length ''0123456789''" by simp
  then show ?thesis by (rule nth_mem)
qed

lemma pad_hd: "pad (Suc k) n \<noteq> [] \<and> hd (pad (Suc k) n) \<in> set ''0123456789''"
proof (induction k arbitrary: n)
  case 0
  show ?case using digit_char[of n] by simp
next
  case (Suc k)
  have "pad (Suc (Suc k)) n = pad (Suc k) (n div 10) @ [''0123456789'' ! nat (n mod 10)]"
    by simp
  with Suc[of "n div 10"] show ?case by (simp only: hd_append) simp
qed

lemma year_text_hd: "year_text y \<noteq> [] \<and> hd (year_text y) \<in> set ''0123456789+-''"
proof -
  have 4: "pad 4 y \<noteq> [] \<and> hd (pad 4 y) \<in> set ''0123456789''"
    using pad_hd[of 3 y] by (simp add: numeral_eq_Suc)
  then show ?thesis by (auto simp: year_text_def)
qed

lemma toISOString_hd:
  assumes "toISOString d = Inr s"
  shows "s \<noteq> [] \<and> hd s \<in> set ''0123456789+-''"
proof -
  from assms obtain t where "d = Some t" by (cases d) (auto simp: toISOString_def)
  with assms obtain y r where "s = year_text y @ r"
    by (auto simp: toISOString_def Let_def split: prod.splits)
  with year_text_hd[of y] show ?thesis by simp
qed

lemma Object_prototype_hd: "k \<in> set Object_prototype \<Longrightarrow> hd k \<in> set ''_chiptv''"
  by (auto simp: Object_prototype_def)

lemma bucket_key_plain:
  assumes "bucket_key g d = Inr k"
  shows "k \<notin> set Object_prototype"
proof
  assume p: "k \<in> set Object_prototype"
  from assms obtain s where s: "toISOString d = Inr s"
    and k: "k = (if g = jour then take 10 s else take 13 s)"
    by (auto simp: bucket_key_def split: sum.splits)
  from toISOString_hd[OF s] k have "hd k \<in> set ''0123456789+-''"
    by (cases s) auto
  with Object_prototype_hd[OF p] show False by auto
qed

lemma count_buckets_fold:
  assumes "count_buckets h g i evs obj = Inr obj'"
  shows "\<exists>ks. length ks = length evs
           \<and> (\<forall>j < length evs. bucket_key g (effective_date h (i + j) (evs ! j)) = Inr (ks ! j))
           \<and> obj' = foldl increment obj ks"
  using assms
proof (induction evs arbitrary: i obj)
  case Nil
  then show ?case by simp
next
  case (Cons ev evs)
  from Cons.prems obtain key where key: "bucket_key g (effective_date h i ev) = Inr key"
    and rest: "count_buckets h g (Suc i) evs (increment obj key) = Inr obj'"
    by (auto split: sum.splits)
  from Cons.IH[OF rest] obtain ks where ks: "length ks = length evs"
    "\<forall>j < length evs. bucket_key g (effective_date h (Suc i + j) (evs ! j)) = Inr (ks ! j)"
    "obj' = foldl increment (increment obj key) ks" by blast
  have "\<forall>j < length (ev # evs). bucket_key g (effective_date h (i + j) ((ev # evs) ! j)) = Inr ((key # ks) ! j)"
  proof (intro allI impI)
    fix j assume "j < length (ev # evs)"
    then show "bucket_key g (effective_date h (i + j) ((ev # evs) ! j)) = Inr ((key # ks) ! j)"
      using key ks(2) by (cases j) auto
  qed
  with ks(1,3) show ?case by (intro exI[of _ "key # ks"]) simp
qed

lemma mset_Object_keys: "mset (Object_keys obj) = mset (map fst obj)"
proof -
  have "mset (Object_keys obj)
      = filter_mset is_array_index (mset (map fst obj))
        + filter_mset (\<lambda>k. \<not> is_array_index k) (mset (map fst obj))"
    by (simp add: Object_keys_def)
  then show ?thesis using multiset_partition[of "mset (map fst obj)" is_array_index] by simp
qed

lemma set_Object_keys: "set (Object_keys obj) = set (map fst obj)"
  using mset_Object_keys[of obj] by (rule mset_eq_setD)

lemma distinct_Object_keys: "distinct (Object_keys obj) = distinct (map fst obj)"
  using mset_Object_keys[of obj] by (rule mset_eq_imp_distinct_iff)

lemma get_property_tally:
  assumes "numeric obj" and "k \<in> set (map fst obj)"
  shows "get_property obj k = Num (tally obj k)"
proof -
  from assms(2) obtain v where v: "map_of obj k = Some v"
    by (metis list.set_map map_of_eq_None_iff not_Some_eq)
  with numeric_lookup[OF assms(1)] obtain n where "v = Num n" by blast
  with v show ?thesis by (simp add: get_property_def tally_def)
qed

lemma sum_count_list:
  assumes "distinct ls" and "set ls = set ks"
  shows "sum_list (map (count_list ks) ls) = length ks"
proof -
  have "sum_list (map (count_list ks) ls) = sum (count_list ks) (set ls)"
    using assms(1) by (rule sum_list_distinct_conv_sum_set)
  also have "\<dots> = length ks" using assms(2) by (simp add: sum_count_set)
  finally show ?thesis .
qed

text \<open>What the counting leaves when no key is a name of \<^verbatim>\<open>Object.prototype\<close>.\<close>

lemma tallied:
  assumes "\<forall>k \<in> set ks. k \<notin> set Object_prototype"
    and "mset ls = mset (map fst (foldl increment [] ks))"
  shows "distinct ls" and "set ls = set ks"
    and "map (get_property (foldl increment [] ks)) ls = map (\<lambda>l. Num (count_list ks l)) ls"
proof -
  let ?o = "foldl increment [] ks"
  have "numeric []" "distinct (map fst ([] :: jsobject))" by (simp_all add: numeric_def)
  from fold_increment[OF assms(1) this] have n: "numeric ?o" and d: "distinct (map fst ?o)"
    and s: "set (map fst ?o) = set ks" and t: "\<forall>k. tally ?o k = count_list ks k"
    by (simp_all add: tally_def)
  from assms(2) d show "distinct ls" using mset_eq_imp_distinct_iff by blast
  from assms(2) s show ls: "set ls = set ks" using mset_eq_setD by blast
  show "map (get_property ?o) ls = map (\<lambda>l. Num (count_list ks l)) ls"
  proof (rule map_cong[OF refl])
    fix l assume "l \<in> set ls"
    with ls s have "l \<in> set (map fst ?o)" by simp
    from get_property_tally[OF n this] t show "get_property ?o l = Num (count_list ks l)" by simp
  qed
qed

lemma insert_by_insort:
  fixes f :: "'a \<Rightarrow> int"
  assumes "\<forall>a \<in> K. \<forall>b \<in> K. c a b = Some (f a - f b)" and "x \<in> K" and "set ys \<subseteq> K"
  shows "insert_by c x ys = insort_key f x ys"
  using assms(3)
proof (induction ys)
  case Nil
  show ?case by simp
next
  case (Cons y ys)
  from Cons.prems assms(1,2) have c: "c x y = Some (f x - f y)" by simp
  from Cons.prems have "set ys \<subseteq> K" by simp
  with Cons.IH c show ?case by simp
qed

lemma sort_by_sort_key:
  fixes f :: "'a \<Rightarrow> int"
  assumes "\<forall>a \<in> K. \<forall>b \<in> K. c a b = Some (f a - f b)" and "set xs \<subseteq> K"
  shows "sort_by c xs = sort_key f xs"
  using assms(2)
proof (induction xs)
  case Nil
  show ?case by (simp add: sort_by_def)
next
  case (Cons x xs)
  from Cons.prems have x: "x \<in> K" and xs: "set xs \<subseteq> K" by simp_all
  from Cons.IH[OF xs] have "sort_by c (x # xs) = insert_by c x (sort_key f xs)"
    by (simp add: sort_by_def)
  also have "\<dots> = insort_key f x (sort_key f xs)"
    using insert_by_insort[OF assms(1) x, of "sort_key f xs"] xs by simp
  finally show ?case by simp
qed

lemma effective_date_valid: "timestamps h ev \<Longrightarrow> \<exists>t. effective_date h i ev = Some t"
  by (auto simp: timestamps_def effective_date_def split: option.splits)

lemma bucket_key_valid: "\<exists>k. bucket_key g (Some t) = Inr k"
  by (simp add: bucket_key_def toISOString_def Let_def split: prod.splits)

lemma count_buckets_total:
  "list_all (timestamps h) evs \<Longrightarrow> \<exists>obj'. count_buckets h g i evs obj = Inr obj'"
proof (induction evs arbitrary: i obj)
  case Nil
  show ?case by simp
next
  case (Cons ev evs)
  from Cons.prems obtain t where t: "effective_date h i ev = Some t"
    using effective_date_valid[of h ev i] by auto
  obtain k where k: "bucket_key g (Some t) = Inr k" using bucket_key_valid by blast
  from Cons.prems have "list_all (timestamps h) evs" by simp
  from Cons.IH[OF this, of "Suc i" "increment obj k"] show ?case by (simp add: t k)
qed

subsection \<open>The time series\<close>

text \<open>
  Claim C4.  Whenever \<open>computeTimeSeries\<close> returns, its labels are strictly
  ascending, hence without repetition; they are exactly the bucket keys of the
  events of the window; each count is the number of events with that key, so every
  count is positive (a bucket without events is absent, not zero) and the counts
  add up to the size of the window.
\<close>

theorem computeTimeSeries_buckets:
  assumes "computeTimeSeries h events g = Inr (labels, data)"
  shows "sorted_wrt (<) labels \<and> distinct labels \<and> length data = length labels
       \<and> (\<exists>ks. length ks = length events
             \<and> (\<forall>i < length events.
                   bucket_key g (effective_date h i (events ! i)) = Inr (ks ! i))
             \<and> set labels = set ks
             \<and> data = map (\<lambda>l. Num (count_list ks l)) labels)
       \<and> (\<exists>ns. data = map Num ns \<and> sum_list ns = length events \<and> (\<forall>n \<in> set ns. 0 < n))"
proof -
  from assms obtain counts where c: "count_buckets h g 0 events [] = Inr counts"
    and l: "labels = sort (Object_keys counts)"
    and dt: "data = map (get_property counts) labels"
    by (auto simp: computeTimeSeries_def Let_def split: sum.splits)
  from count_buckets_fold[OF c] obtain ks where ks: "length ks = length events"
    "\<forall>i < length events. bucket_key g (effective_date h i (events ! i)) = Inr (ks ! i)"
    "counts = foldl increment [] ks" by auto
  have plain: "\<forall>k \<in> set ks. k \<notin> set Object_prototype"
  proof
    fix k assume "k \<in> set ks"
    then obtain i where "i < length ks" "ks ! i = k" by (auto simp: in_set_conv_nth)
    with ks(1,2) have "bucket_key g (effective_date h i (events ! i)) = Inr k" by auto
    then show "k \<notin> set Object_prototype" by (rule bucket_key_plain)
  qed
  have m: "mset labels = mset (map fst (foldl increment [] ks))"
    by (simp add: l ks(3) mset_Object_keys)
  note T = tallied[OF plain m]
  have srt: "sorted_wrt (<) labels" using T(1) by (simp add: strict_sorted_iff l)
  have data: "data = map (\<lambda>l. Num (count_list ks l)) labels" using T(3) by (simp add: dt ks(3))
  let ?ns = "map (count_list ks) labels"
  have "data = map Num ?ns" by (simp add: data)
  moreover have "sum_list ?ns = length events" using sum_count_list[OF T(1,2)] ks(1) by simp
  moreover have "\<forall>n \<in> set ?ns. 0 < n"
  proof
    fix n assume "n \<in> set ?ns"
    then obtain l where "l \<in> set labels" "n = count_list ks l" by auto
    with T(2) have "count_list ks l \<noteq> 0" by (simp add: count_list_0_iff)
    with \<open>n = count_list ks l\<close> show "0 < n" by simp
  qed
  ultimately have ns: "\<exists>ns. data = map Num ns \<and> sum_list ns = length events \<and> (\<forall>n \<in> set ns. 0 < n)"
    by blast
  have kk: "\<exists>ks. length ks = length events
             \<and> (\<forall>i < length events.
                   bucket_key g (effective_date h i (events ! i)) = Inr (ks ! i))
             \<and> set labels = set ks
             \<and> data = map (\<lambda>l. Num (count_list ks l)) labels"
    using ks(1,2) T(2) data by blast
  from srt T(1) dt ns kk show ?thesis by simp
qed

theorem computeTimeSeries_buckets_witness:
  "computeTimeSeries reference_host sample_window jour
     = Inr ([''2024-01-01'', ''2024-01-02''], [Num 2, Num 1])
   \<and> sorted_wrt (<) [''2024-01-01'', ''2024-01-02'']
   \<and> (\<exists>ns. [Num 2, Num 1] = map Num ns \<and> sum_list ns = length sample_window
          \<and> (\<forall>n \<in> set ns. 0 < n))"
proof -
  have e: "computeTimeSeries reference_host sample_window jour
     = Inr ([''2024-01-01'', ''2024-01-02''], [Num 2, Num 1])"
    by code_simp
  from computeTimeSeries_buckets [OF e] e show ?thesis by blast
qed

subsection \<open>Totality\<close>

text \<open>
  Claim C3.  On a well-formed window \<open>computeTimeSeries\<close> returns a result and
  throws nothing; \<open>computeTitleBars\<close> and the statistics have no operation that
  can throw, which is why they are plain functions here.  On the empty window the
  time series and the title bars are empty, the total, the number of distinct
  sources and the number of recommendations are 0, and there is no last event.
\<close>

theorem aggregations_total:
  assumes "list_all (timestamps h) events"
  shows "(\<exists>labels data. computeTimeSeries h events g = Inr (labels, data))
       \<and> computeTimeSeries h [] g = Inr ([], [])
       \<and> computeTitleBars [] = ([], [])
       \<and> totalCount [] = 0 \<and> uniqueIPs [] = 0 \<and> eventsWithRecommendation [] = 0
       \<and> lastEvent [] = None"
proof -
  from count_buckets_total[OF assms] obtain counts where
    "count_buckets h g 0 events [] = Inr counts" by blast
  then have 1: "\<exists>labels data. computeTimeSeries h events g = Inr (labels, data)"
    by (simp add: computeTimeSeries_def Let_def)
  have 2: "computeTimeSeries h [] g = Inr ([], [])"
    by (simp add: computeTimeSeries_def Object_keys_def)
  have 3: "computeTitleBars [] = ([], [])"
    by (simp add: computeTitleBars_def Object_keys_def sort_by_def)
  have 4: "totalCount [] = 0" "uniqueIPs [] = 0" "eventsWithRecommendation [] = 0"
    "lastEvent [] = None"
    by (simp_all add: totalCount_def uniqueIPs_def eventsWithRecommendation_def lastEvent_def)
  from 1 2 3 4 show ?thesis by simp
qed

theorem aggregations_total_witness:
  "list_all (timestamps reference_host) sample_window
   \<and> (\<exists>labels data. computeTimeSeries reference_host sample_window heure = Inr (labels, data))"
proof -
  have w: "list_all (timestamps reference_host) sample_window" by code_simp
  from aggregations_total [OF w, of heure] w show ?thesis by blast
qed

text \<open>
  Well-formedness is needed: a date text the host cannot read makes
  \<^verbatim>\<open>toISOString\<close> throw.
\<close>

lemma computeTimeSeries_unparsable:
  "computeTimeSeries reference_host [sample ''Port Scan'' ''not a date''] jour = Inl RangeError"
  by code_simp

subsection \<open>The title bars\<close>

text \<open>
  Claim C5, at two windows the code can receive (\<open>POST\<close> accepts any non-empty
  title).  An event titled \<^verbatim>\<open>__proto__\<close> is not counted at all: the window of two
  events yields the single label \<^verbatim>\<open>Port Scan\<close> with count 1, so a title of the
  window is missing and the counts do not add up to the window size.  An event
  titled \<^verbatim>\<open>constructor\<close> yields its label with a text in place of the count 1.
\<close>

theorem computeTitleBars_prototype_names:
  "computeTitleBars [sample ''__proto__'' ''2024-01-01T10:00:00.000Z'',
                     sample ''Port Scan'' ''2024-01-01T11:00:00.000Z'']
     = ([''Port Scan''], [Num 1])
   \<and> computeTitleBars [sample ''constructor'' ''2024-01-01T10:00:00.000Z'']
     = ([''constructor''], [Text ''constructor'' 1])"
  by code_simp

text \<open>
  For a window in which no title is a name of \<^verbatim>\<open>Object.prototype\<close> the title bars
  are as intended: each distinct title once, with the exact number of its events,
  the counts adding up to the window size, in order of non-increasing count.
\<close>

lemma computeTitleBars_plain_titles:
  assumes "\<forall>ev \<in> set events. titre ev \<notin> set Object_prototype"
    and "computeTitleBars events = (labels, data)"
  shows "distinct labels \<and> set labels = titre ` set events
       \<and> data = map (\<lambda>l. Num (count_list (map titre events) l)) labels
       \<and> sum_list (map (count_list (map titre events)) labels) = length events
       \<and> sorted_wrt (\<lambda>a b. count_list (map titre events) b \<le> count_list (map titre events) a)
            labels"
proof -
  let ?ts = "map titre events"
  let ?d = "foldl increment [] ?ts"
  let ?c = "\<lambda>a b. minus (get_property ?d b) (get_property ?d a)"
  let ?f = "\<lambda>k. - int (count_list ?ts k)"
  have fold: "foldl (\<lambda>d ev. increment d (titre ev)) [] events = ?d" by (simp add: foldl_map)
  from assms(2) have l: "labels = sort_by ?c (Object_keys ?d)"
    and dt: "data = map (get_property ?d) labels"
    by (auto simp: computeTitleBars_def Let_def fold)
  from assms(1) have plain: "\<forall>k \<in> set ?ts. k \<notin> set Object_prototype" by simp
  have "numeric []" "distinct (map fst ([] :: jsobject))" by (simp_all add: numeric_def)
  from fold_increment[OF plain this] have n: "numeric ?d"
    and s: "set (map fst ?d) = set ?ts" and t: "\<forall>k. tally ?d k = count_list ?ts k"
    by (simp_all add: tally_def)
  have cmp: "\<forall>a \<in> set ?ts. \<forall>b \<in> set ?ts. ?c a b = Some (?f a - ?f b)"
  proof (intro ballI)
    fix a b assume "a \<in> set ?ts" "b \<in> set ?ts"
    with s have "a \<in> set (map fst ?d)" "b \<in> set (map fst ?d)" by simp_all
    from get_property_tally[OF n this(1)] get_property_tally[OF n this(2)] t
    show "?c a b = Some (?f a - ?f b)" by simp
  qed
  have sub: "set (Object_keys ?d) \<subseteq> set ?ts" using set_Object_keys[of ?d] s by simp
  have l': "labels = sort_key ?f (Object_keys ?d)"
    using sort_by_sort_key[OF cmp sub] l by simp
  have m: "mset labels = mset (map fst ?d)" by (simp add: l' mset_Object_keys)
  note T = tallied[OF plain m]
  have data: "data = map (\<lambda>l. Num (count_list ?ts l)) labels" using T(3) by (simp add: dt)
  have sum: "sum_list (map (count_list ?ts) labels) = length events"
    using sum_count_list[OF T(1,2)] by simp
  have "sorted (map ?f labels)" unfolding l' by (rule sorted_sort_key)
  then have srt: "sorted_wrt (\<lambda>a b. count_list ?ts b \<le> count_list ?ts a) labels"
    by (simp add: sorted_map)
  from T(1,2) data sum srt show ?thesis by simp
qed

end
